theory Spec2Isabelle
  imports Complex_Main
begin

section \<open>Data of the VideoInterview component\<close>

text \<open>
  A prediction of the object-detection model: its class label and its bounding box
  \<open>[x, y, width, height]\<close>. JavaScript numbers are modelled as exact rationals; the
  results of a division by zero (\<open>Infinity\<close>, \<open>-Infinity\<close>, \<open>NaN\<close>) are written out
  where the source divides.
\<close>

record prediction =
  pred_class :: string
  bbox :: "rat \<times> rat \<times> rat \<times> rat"

definition bbox0 :: "prediction \<Rightarrow> rat" where
  "bbox0 p = (case bbox p of (x, y, w, h) \<Rightarrow> x)"

definition bbox2 :: "prediction \<Rightarrow> rat" where
  "bbox2 p = (case bbox p of (x, y, w, h) \<Rightarrow> w)"

definition bbox3 :: "prediction \<Rightarrow> rat" where
  "bbox3 p = (case bbox p of (x, y, w, h) \<Rightarrow> h)"

text \<open>The video element behind \<open>videoRef.current\<close> (\<open>None\<close> is \<open>null\<close>).\<close>

record video =
  readyState :: nat
  videoWidth :: nat
  videoHeight :: nat

text \<open>An entry of \<open>eventLogs\<close>: the object \<open>{ timestamp, event }\<close>.\<close>

record logEntry =
  timestamp :: string
  event :: string

text \<open>
  The state and refs of the component that the detection loop reads and writes.
\<close>

record videoInterview =
  eventLogs :: "logEntry list"
  newEventIndex :: "nat option"
  faceDetected :: bool
  lastFaceCheckTime :: int
  lastMultipleFacesTime :: int
  lastItemDetectionTime :: int
  lastLookAwayTime :: int

text \<open>
  What one run of the interval callback reads from outside once \<open>model.detect\<close> has
  resolved: the predictions, \<open>Date.now()\<close>, \<open>new Date().toISOString()\<close> and the value of
  \<open>videoRef.current\<close> at that moment.
\<close>

record cycle =
  videoRefCurrent :: "video option"
  predictions :: "prediction list"
  currentTime :: int
  isoString :: string

definition suspiciousItems :: "string list" where
  "suspiciousItems = [''cell phone'', ''book'', ''laptop'', ''keyboard'', ''remote'']"

text \<open>The state at mount; \<open>mountTime\<close> is the \<open>Date.now()\<close> of the first render.\<close>

definition initialState :: "int \<Rightarrow> videoInterview" where
  "initialState mountTime =
     \<lparr>eventLogs = [], newEventIndex = None, faceDetected = False,
      lastFaceCheckTime = mountTime, lastMultipleFacesTime = 0,
      lastItemDetectionTime = 0, lastLookAwayTime = 0\<rparr>"

section \<open>Detection utilities\<close>

text \<open>
  \<open>normalizedX = faceCenterX / videoWidth\<close>: with \<open>videoWidth = 0\<close> the quotient is
  \<open>Infinity\<close> or \<open>-Infinity\<close> (outside the band) unless \<open>faceCenterX = 0\<close>, when it is
  \<open>NaN\<close> and both comparisons are false.
\<close>

definition checkLookingAwayBoundingBox :: "prediction \<Rightarrow> nat \<Rightarrow> bool" where
  "checkLookingAwayBoundingBox personPrediction vWidth =
     (let faceCenterX = bbox0 personPrediction + bbox2 personPrediction / 2 in
      if vWidth = 0 then faceCenterX \<noteq> 0
      else (let normalizedX = faceCenterX / of_nat vWidth in
            normalizedX < 35 / 100 \<or> normalizedX > 65 / 100))"

text \<open>
  \<open>ratio = bbox[3] / videoHeight\<close>: with \<open>videoHeight = 0\<close> the quotient is below 0.1
  only when it is \<open>-Infinity\<close>.
\<close>

definition checkEyesClosed :: "prediction \<Rightarrow> nat \<Rightarrow> bool" where
  "checkEyesClosed personPrediction vHeight =
     (if vHeight = 0 then bbox3 personPrediction < 0
      else (let ratio = bbox3 personPrediction / of_nat vHeight in ratio < 1 / 10))"

section \<open>The detection loop\<close>

text \<open>Decimal rendering of a count inside a template literal.\<close>

fun string_of_nat :: "nat \<Rightarrow> string" where
  "string_of_nat n =
     (if n < 10 then [''0123456789'' ! n]
      else string_of_nat (n div 10) @ [''0123456789'' ! (n mod 10)])"

declare string_of_nat.simps [simp del]

text \<open>
  \<open>addEvent\<close>: the functional update of \<open>eventLogs\<close> appends one entry and records its
  index in \<open>newEventIndex\<close>.
\<close>

definition addEvent :: "string \<Rightarrow> string \<Rightarrow> videoInterview \<Rightarrow> videoInterview" where
  "addEvent ts eventText s =
     (let updated = eventLogs s @ [\<lparr>timestamp = ts, event = eventText\<rparr>] in
      s\<lparr>eventLogs := updated, newEventIndex := Some (length updated - 1)\<rparr>)"

definition personPredictions :: "cycle \<Rightarrow> prediction list" where
  "personPredictions c = filter (\<lambda>p. pred_class p = ''person'') (predictions c)"

definition personCount :: "cycle \<Rightarrow> nat" where
  "personCount c = length (personPredictions c)"

text \<open>The block \<open>Face Detection\<close>.\<close>

definition faceDetection :: "cycle \<Rightarrow> videoInterview \<Rightarrow> videoInterview" where
  "faceDetection c s =
     (if personCount c = 0 \<and> currentTime c - lastFaceCheckTime s > 5000 then
        (addEvent (isoString c) ''No face detected for more than 5 seconds'' s)
          \<lparr>faceDetected := False, lastFaceCheckTime := currentTime c\<rparr>
      else if personCount c \<ge> 1 then
        s\<lparr>faceDetected := True, lastFaceCheckTime := currentTime c\<rparr>
      else s)"

text \<open>The block \<open>Multiple Faces\<close>.\<close>

definition multipleFaces :: "cycle \<Rightarrow> videoInterview \<Rightarrow> videoInterview" where
  "multipleFaces c s =
     (if personCount c > 1 \<and> currentTime c - lastMultipleFacesTime s > 5000 then
        (addEvent (isoString c)
           (''Multiple faces detected ('' @ string_of_nat (personCount c) @ '')'') s)
          \<lparr>lastMultipleFacesTime := currentTime c\<rparr>
      else s)"

text \<open>The block \<open>Suspicious Items\<close>; the \<open>forEach\<close> is a left fold over the predictions.\<close>

definition itemEvent :: "cycle \<Rightarrow> videoInterview \<Rightarrow> prediction \<Rightarrow> videoInterview" where
  "itemEvent c s pred =
     (if pred_class pred \<in> set suspiciousItems
      then addEvent (isoString c) (''Suspicious Item Detected: '' @ pred_class pred) s
      else s)"

definition suspiciousItemsScan :: "cycle \<Rightarrow> videoInterview \<Rightarrow> videoInterview" where
  "suspiciousItemsScan c s =
     (if currentTime c - lastItemDetectionTime s > 2000 then
        (foldl (itemEvent c) s (predictions c))\<lparr>lastItemDetectionTime := currentTime c\<rparr>
      else s)"

text \<open>
  The block \<open>Look Away & Eyes Closed\<close>. Reading \<open>videoRef.current.videoWidth\<close> when
  \<open>videoRef.current\<close> is \<open>null\<close> throws a TypeError, which rejects the promise of the
  async callback; what the earlier blocks wrote stays written.
\<close>

datatype outcome = Returned | Rejected

definition lookAwayEyesClosed :: "cycle \<Rightarrow> videoInterview \<Rightarrow> outcome \<times> videoInterview" where
  "lookAwayEyesClosed c s =
     (if personCount c = 1 then
        (let person = hd (personPredictions c) in
         case videoRefCurrent c of
           None \<Rightarrow> (Rejected, s)
         | Some v \<Rightarrow>
             (let s1 = (if checkLookingAwayBoundingBox person (videoWidth v) \<and>
                           currentTime c - lastLookAwayTime s > 5000
                        then (addEvent (isoString c) ''User looking away'' s)
                               \<lparr>lastLookAwayTime := currentTime c\<rparr>
                        else s);
                  s2 = (if checkEyesClosed person (videoHeight v)
                        then addEvent (isoString c) ''Eyes closed detected'' s1
                        else s1)
              in (Returned, s2)))
      else (Returned, s))"

text \<open>
  The interval callback from the point where \<open>model.detect\<close> has resolved to its end.
  It contains no further \<open>await\<close>, so it runs without interleaving.
\<close>

definition intervalCallback :: "cycle \<Rightarrow> videoInterview \<Rightarrow> outcome \<times> videoInterview" where
  "intervalCallback c s =
     lookAwayEyesClosed c (suspiciousItemsScan c (multipleFaces c (faceDetection c s)))"

text \<open>A run: the cycles in the order in which their detection calls resolve.\<close>

definition run :: "videoInterview \<Rightarrow> cycle list \<Rightarrow> videoInterview" where
  "run s cs = foldl (\<lambda>s c. snd (intervalCallback c s)) s cs"

text \<open>The entries a cycle appends: what the log holds beyond its earlier length.\<close>

definition emitted :: "cycle \<Rightarrow> videoInterview \<Rightarrow> logEntry list" where
  "emitted c s = drop (length (eventLogs s)) (eventLogs (snd (intervalCallback c s)))"

section \<open>The report: counts and integrity score\<close>

text \<open>\<open>String.prototype.includes\<close>: the pattern occurs somewhere in the text.\<close>

fun startsWith :: "string \<Rightarrow> string \<Rightarrow> bool" where
  "startsWith s [] = True"
| "startsWith [] (p # ps) = False"
| "startsWith (c # cs) (p # ps) = (c = p \<and> startsWith cs ps)"

fun str_includes :: "string \<Rightarrow> string \<Rightarrow> bool" where
  "str_includes [] pat = (pat = [])"
| "str_includes (c # cs) pat = (startsWith (c # cs) pat \<or> str_includes cs pat)"

text \<open>The counts and the score that \<open>exportLogsAsCSV\<close> computes from \<open>eventLogs\<close>.\<close>

definition focusLostEvents :: "logEntry list \<Rightarrow> nat" where
  "focusLostEvents logs = length (filter (\<lambda>log. str_includes (event log) ''No face detected'') logs)"

definition multipleFacesEvents :: "logEntry list \<Rightarrow> nat" where
  "multipleFacesEvents logs =
     length (filter (\<lambda>log. str_includes (event log) ''Multiple faces detected'') logs)"

definition suspiciousItemEvents :: "logEntry list \<Rightarrow> nat" where
  "suspiciousItemEvents logs =
     length (filter (\<lambda>log. str_includes (event log) ''Suspicious Item Detected'') logs)"

definition eyesClosedEvents :: "logEntry list \<Rightarrow> nat" where
  "eyesClosedEvents logs = length (filter (\<lambda>log. str_includes (event log) ''Eyes closed'') logs)"

definition lookingAwayEvents :: "logEntry list \<Rightarrow> nat" where
  "lookingAwayEvents logs = length (filter (\<lambda>log. str_includes (event log) ''looking away'') logs)"

definition totalDeductions :: "logEntry list \<Rightarrow> int" where
  "totalDeductions logs =
     int (focusLostEvents logs) * 5 + int (multipleFacesEvents logs) * 5 +
     int (suspiciousItemEvents logs) * 10 + int (eyesClosedEvents logs) * 10 +
     int (lookingAwayEvents logs) * 5"

definition integrityScore :: "logEntry list \<Rightarrow> int" where
  "integrityScore logs = max 0 (100 - totalDeductions logs)"

section \<open>The sampler: the timer and the pending detection calls\<close>

text \<open>
  \<open>setInterval\<close> calls the async callback every 1000 ms and does not wait for the
  promise it returns. A call of the callback runs to its \<open>await model.detect(...)\<close> and
  suspends there; it resumes when the detection resolves. \<open>inFlight\<close> counts the calls
  suspended at the \<open>await\<close>.
\<close>

record sampler =
  component :: videoInterview
  inFlight :: nat

text \<open>The guard \<open>!videoRef.current || videoRef.current.readyState < 2\<close>.\<close>

definition notReady :: "video option \<Rightarrow> bool" where
  "notReady v = (case v of None \<Rightarrow> True | Some el \<Rightarrow> readyState el < 2)"

text \<open>The timer fires: the guard returns, or the detection call starts.\<close>

definition timerFires :: "video option \<Rightarrow> sampler \<Rightarrow> sampler" where
  "timerFires v sys = (if notReady v then sys else sys\<lparr>inFlight := inFlight sys + 1\<rparr>)"

text \<open>A pending detection resolves: the rest of the callback runs on the component.\<close>

definition detectResolves :: "cycle \<Rightarrow> sampler \<Rightarrow> sampler" where
  "detectResolves c sys =
     (if inFlight sys = 0 then sys
      else \<lparr>component = snd (intervalCallback c (component sys)), inFlight = inFlight sys - 1\<rparr>)"

datatype stimulus = TimerFires "video option" | DetectResolves cycle

fun step :: "sampler \<Rightarrow> stimulus \<Rightarrow> sampler" where
  "step sys (TimerFires v) = timerFires v sys"
| "step sys (DetectResolves c) = detectResolves c sys"

definition runSampler :: "sampler \<Rightarrow> stimulus list \<Rightarrow> sampler" where
  "runSampler sys stimuli = foldl step sys stimuli"

definition initialSampler :: "int \<Rightarrow> sampler" where
  "initialSampler mountTime = \<lparr>component = initialState mountTime, inFlight = 0\<rparr>"

text \<open>
  The order of two timestamp strings as JavaScript compares strings, by code units; on
  the strings \<open>toISOString\<close> returns for years 0 to 9999 it is the order in time.
\<close>

fun isoLe :: "string \<Rightarrow> string \<Rightarrow> bool" where
  "isoLe [] t = True"
| "isoLe (a # as) [] = False"
| "isoLe (a # as) (b # bs) = ((of_char a :: nat) < of_char b \<or> (a = b \<and> isoLe as bs))"

section \<open>Event kinds of the specification\<close>

text \<open>
  The specification's enumerated event kinds, with the detail each carries, and the text
  under which the detection loop logs an event of each kind.
\<close>

datatype EventKind =
  isAbsence: NoFaceDetected
| isMultipleFaces: MultipleFacesDetected nat
| isSuspiciousItem: SuspiciousItemDetected string
| isLookingAway: LookingAway
| isEyesClosed: EyesClosed

fun eventText :: "EventKind \<Rightarrow> string" where
  "eventText NoFaceDetected = ''No face detected for more than 5 seconds''"
| "eventText (MultipleFacesDetected n) = ''Multiple faces detected ('' @ string_of_nat n @ '')''"
| "eventText (SuspiciousItemDetected label) = ''Suspicious Item Detected: '' @ label"
| "eventText LookingAway = ''User looking away''"
| "eventText EyesClosed = ''Eyes closed detected''"

fun validKind :: "EventKind \<Rightarrow> bool" where
  "validKind (SuspiciousItemDetected label) = (label \<in> set suspiciousItems)"
| "validKind k = True"

fun weight :: "EventKind \<Rightarrow> int" where
  "weight NoFaceDetected = 5"
| "weight (MultipleFacesDetected n) = 5"
| "weight (SuspiciousItemDetected label) = 10"
| "weight LookingAway = 5"
| "weight EyesClosed = 10"

definition logOf :: "(string \<times> EventKind) list \<Rightarrow> logEntry list" where
  "logOf evs = map (\<lambda>(ts, k). \<lparr>timestamp = ts, event = eventText k\<rparr>) evs"

definition countKind :: "(EventKind \<Rightarrow> bool) \<Rightarrow> (string \<times> EventKind) list \<Rightarrow> nat" where
  "countKind isKind evs = length (filter (\<lambda>(ts, k). isKind k) evs)"

section \<open>What a cycle logs, block by block\<close>

definition entry :: "cycle \<Rightarrow> string \<Rightarrow> logEntry" where
  "entry c txt = \<lparr>timestamp = isoString c, event = txt\<rparr>"

definition faceTexts :: "cycle \<Rightarrow> videoInterview \<Rightarrow> string list" where
  "faceTexts c s =
     (if personCount c = 0 \<and> currentTime c - lastFaceCheckTime s > 5000
      then [''No face detected for more than 5 seconds''] else [])"

definition multiTexts :: "cycle \<Rightarrow> videoInterview \<Rightarrow> string list" where
  "multiTexts c s =
     (if personCount c > 1 \<and> currentTime c - lastMultipleFacesTime s > 5000
      then [''Multiple faces detected ('' @ string_of_nat (personCount c) @ '')''] else [])"

definition itemTexts :: "cycle \<Rightarrow> videoInterview \<Rightarrow> string list" where
  "itemTexts c s =
     (if currentTime c - lastItemDetectionTime s > 2000
      then map (\<lambda>p. ''Suspicious Item Detected: '' @ pred_class p)
             (filter (\<lambda>p. pred_class p \<in> set suspiciousItems) (predictions c))
      else [])"

definition gazeTexts :: "cycle \<Rightarrow> videoInterview \<Rightarrow> string list" where
  "gazeTexts c s =
     (if personCount c = 1 then
        (case videoRefCurrent c of
           None \<Rightarrow> []
         | Some v \<Rightarrow>
             (if checkLookingAwayBoundingBox (hd (personPredictions c)) (videoWidth v) \<and>
                 currentTime c - lastLookAwayTime s > 5000
              then [''User looking away''] else []) @
             (if checkEyesClosed (hd (personPredictions c)) (videoHeight v)
              then [''Eyes closed detected''] else []))
      else [])"

definition cycleTexts :: "cycle \<Rightarrow> videoInterview \<Rightarrow> string list" where
  "cycleTexts c s = faceTexts c s @ multiTexts c s @ itemTexts c s @ gazeTexts c s"

text \<open>The same events as kinds of the specification.\<close>

definition cycleKinds :: "cycle \<Rightarrow> videoInterview \<Rightarrow> EventKind list" where
  "cycleKinds c s =
     (if personCount c = 0 \<and> currentTime c - lastFaceCheckTime s > 5000
      then [NoFaceDetected] else []) @
     (if personCount c > 1 \<and> currentTime c - lastMultipleFacesTime s > 5000
      then [MultipleFacesDetected (personCount c)] else []) @
     (if currentTime c - lastItemDetectionTime s > 2000
      then map (\<lambda>p. SuspiciousItemDetected (pred_class p))
             (filter (\<lambda>p. pred_class p \<in> set suspiciousItems) (predictions c))
      else []) @
     (if personCount c = 1 then
        (case videoRefCurrent c of
           None \<Rightarrow> []
         | Some v \<Rightarrow>
             (if checkLookingAwayBoundingBox (hd (personPredictions c)) (videoWidth v) \<and>
                 currentTime c - lastLookAwayTime s > 5000
              then [LookingAway] else []) @
             (if checkEyesClosed (hd (personPredictions c)) (videoHeight v)
              then [EyesClosed] else []))
      else [])"

text \<open>
  The condition of the eyes-closed heuristic as the specification words it: exactly one
  person, whose box height over the frame height is below one tenth.
\<close>

definition eyesClosedQualifies :: "cycle \<Rightarrow> bool" where
  "eyesClosedQualifies c =
     (case (personPredictions c, videoRefCurrent c) of
        ([p], Some v) \<Rightarrow> bbox3 p / of_nat (videoHeight v) < 1 / 10
      | _ \<Rightarrow> False)"

section \<open>Sample inputs\<close>

definition readyVideo :: video where
  "readyVideo = \<lparr>readyState = 4, videoWidth = 640, videoHeight = 480\<rparr>"

definition loadingVideo :: video where
  "loadingVideo = \<lparr>readyState = 1, videoWidth = 640, videoHeight = 480\<rparr>"

definition sampleMount :: int where
  "sampleMount = 1700000000000"

definition sampleIso :: "nat \<Rightarrow> string" where
  "sampleIso k = ''2023-11-14T22:13:'' @ string_of_nat (20 + k) @ ''.000Z''"

text \<open>The cycle that resolves \<open>k\<close> seconds after the mount (\<open>k < 40\<close>).\<close>

definition sampleCycle :: "nat \<Rightarrow> prediction list \<Rightarrow> cycle" where
  "sampleCycle k ps =
     \<lparr>videoRefCurrent = Some readyVideo, predictions = ps,
      currentTime = sampleMount + 1000 * int k, isoString = sampleIso k\<rparr>"

definition samplePrediction :: "string \<Rightarrow> rat \<times> rat \<times> rat \<times> rat \<Rightarrow> prediction" where
  "samplePrediction label box = \<lparr>pred_class = label, bbox = box\<rparr>"

text \<open>
  A frame with one person whose box is centred and 30 of 480 pixels high, a cell phone
  and a book.
\<close>

definition busyFrame :: "prediction list" where
  "busyFrame =
     [samplePrediction ''person'' (300, 200, 40, 30),
      samplePrediction ''cell phone'' (10, 10, 50, 80),
      samplePrediction ''book'' (400, 300, 120, 90)]"

definition twoPersons :: "prediction list" where
  "twoPersons =
     [samplePrediction ''person'' (100, 50, 200, 400),
      samplePrediction ''person'' (350, 60, 180, 380)]"

definition tallPerson :: "prediction list" where
  "tallPerson = [samplePrediction ''person'' (220, 40, 200, 420)]"

definition absentTicks :: "cycle list" where
  "absentTicks = map (\<lambda>k. sampleCycle k []) [1..<13]"

section \<open>Each block of the callback, field by field\<close>

lemma addEvent_fields [simp]:
  "eventLogs (addEvent ts txt s) = eventLogs s @ [\<lparr>timestamp = ts, event = txt\<rparr>]"
  "newEventIndex (addEvent ts txt s) = Some (length (eventLogs s))"
  "faceDetected (addEvent ts txt s) = faceDetected s"
  "lastFaceCheckTime (addEvent ts txt s) = lastFaceCheckTime s"
  "lastMultipleFacesTime (addEvent ts txt s) = lastMultipleFacesTime s"
  "lastItemDetectionTime (addEvent ts txt s) = lastItemDetectionTime s"
  "lastLookAwayTime (addEvent ts txt s) = lastLookAwayTime s"
  by (simp_all add: addEvent_def Let_def)

lemma foldl_itemEvent_logs:
  "eventLogs (foldl (itemEvent c) s ps) =
     eventLogs s @ map (entry c) (map (\<lambda>p. ''Suspicious Item Detected: '' @ pred_class p)
        (filter (\<lambda>p. pred_class p \<in> set suspiciousItems) ps))"
  by (induction ps arbitrary: s) (simp_all add: itemEvent_def entry_def)

lemma foldl_itemEvent_fields [simp]:
  "faceDetected (foldl (itemEvent c) s ps) = faceDetected s"
  "lastFaceCheckTime (foldl (itemEvent c) s ps) = lastFaceCheckTime s"
  "lastMultipleFacesTime (foldl (itemEvent c) s ps) = lastMultipleFacesTime s"
  "lastItemDetectionTime (foldl (itemEvent c) s ps) = lastItemDetectionTime s"
  "lastLookAwayTime (foldl (itemEvent c) s ps) = lastLookAwayTime s"
  by (induction ps arbitrary: s) (simp_all add: itemEvent_def)

lemma faceDetection_logs:
  "eventLogs (faceDetection c s) = eventLogs s @ map (entry c) (faceTexts c s)"
  by (simp add: faceDetection_def faceTexts_def entry_def)

lemma faceDetection_fields [simp]:
  "lastMultipleFacesTime (faceDetection c s) = lastMultipleFacesTime s"
  "lastItemDetectionTime (faceDetection c s) = lastItemDetectionTime s"
  "lastLookAwayTime (faceDetection c s) = lastLookAwayTime s"
  by (simp_all add: faceDetection_def)

lemma faceDetection_last:
  "lastFaceCheckTime (faceDetection c s) =
     (if personCount c = 0 \<and> currentTime c - lastFaceCheckTime s \<le> 5000
      then lastFaceCheckTime s else currentTime c)"
  by (auto simp add: faceDetection_def)

lemma multipleFaces_logs:
  "eventLogs (multipleFaces c s) = eventLogs s @ map (entry c) (multiTexts c s)"
  by (simp add: multipleFaces_def multiTexts_def entry_def)

lemma multipleFaces_fields [simp]:
  "faceDetected (multipleFaces c s) = faceDetected s"
  "lastFaceCheckTime (multipleFaces c s) = lastFaceCheckTime s"
  "lastItemDetectionTime (multipleFaces c s) = lastItemDetectionTime s"
  "lastLookAwayTime (multipleFaces c s) = lastLookAwayTime s"
  by (simp_all add: multipleFaces_def)

lemma multipleFaces_last:
  "lastMultipleFacesTime (multipleFaces c s) =
     (if personCount c > 1 \<and> currentTime c - lastMultipleFacesTime s > 5000
      then currentTime c else lastMultipleFacesTime s)"
  by (simp add: multipleFaces_def)

lemma suspiciousItemsScan_logs:
  "eventLogs (suspiciousItemsScan c s) = eventLogs s @ map (entry c) (itemTexts c s)"
  by (simp add: suspiciousItemsScan_def itemTexts_def foldl_itemEvent_logs)

lemma suspiciousItemsScan_fields [simp]:
  "faceDetected (suspiciousItemsScan c s) = faceDetected s"
  "lastFaceCheckTime (suspiciousItemsScan c s) = lastFaceCheckTime s"
  "lastMultipleFacesTime (suspiciousItemsScan c s) = lastMultipleFacesTime s"
  "lastLookAwayTime (suspiciousItemsScan c s) = lastLookAwayTime s"
  by (simp_all add: suspiciousItemsScan_def)

lemma suspiciousItemsScan_last:
  "lastItemDetectionTime (suspiciousItemsScan c s) =
     (if currentTime c - lastItemDetectionTime s > 2000
      then currentTime c else lastItemDetectionTime s)"
  by (simp add: suspiciousItemsScan_def)

lemma lookAwayEyesClosed_logs:
  "eventLogs (snd (lookAwayEyesClosed c s)) = eventLogs s @ map (entry c) (gazeTexts c s)"
  by (simp add: lookAwayEyesClosed_def gazeTexts_def entry_def Let_def split: option.split)

lemma lookAwayEyesClosed_fields [simp]:
  "faceDetected (snd (lookAwayEyesClosed c s)) = faceDetected s"
  "lastFaceCheckTime (snd (lookAwayEyesClosed c s)) = lastFaceCheckTime s"
  "lastMultipleFacesTime (snd (lookAwayEyesClosed c s)) = lastMultipleFacesTime s"
  "lastItemDetectionTime (snd (lookAwayEyesClosed c s)) = lastItemDetectionTime s"
  by (simp_all add: lookAwayEyesClosed_def Let_def split: option.split)

lemma lookAwayEyesClosed_last:
  "lastLookAwayTime (snd (lookAwayEyesClosed c s)) =
     (if ''User looking away'' \<in> set (gazeTexts c s) then currentTime c else lastLookAwayTime s)"
proof (cases "personCount c = 1")
  case False
  then show ?thesis by (simp add: lookAwayEyesClosed_def gazeTexts_def)
next
  case True
  show ?thesis
  proof (cases "videoRefCurrent c")
    case None
    then show ?thesis using True by (simp add: lookAwayEyesClosed_def gazeTexts_def)
  next
    case (Some v)
    then show ?thesis using True
      by (simp add: lookAwayEyesClosed_def gazeTexts_def Let_def)
  qed
qed

lemma intervalCallback_logs:
  "eventLogs (snd (intervalCallback c s)) = eventLogs s @ map (entry c) (cycleTexts c s)"
  by (simp add: intervalCallback_def cycleTexts_def lookAwayEyesClosed_logs
      suspiciousItemsScan_logs multipleFaces_logs faceDetection_logs
      faceTexts_def multiTexts_def itemTexts_def gazeTexts_def split: option.split)

lemma emitted_eq: "emitted c s = map (entry c) (cycleTexts c s)"
  by (simp add: emitted_def intervalCallback_logs)


lemma startsWith_set: "startsWith s p \<Longrightarrow> set p \<subseteq> set s"
  by (induction s p rule: startsWith.induct) auto

lemma str_includes_set: "str_includes s p \<Longrightarrow> set p \<subseteq> set s"
proof (induction s)
  case Nil
  then show ?case by simp
next
  case (Cons c cs)
  then show ?case using startsWith_set [of "c # cs" p] by auto
qed

lemma startsWith_append: "startsWith (p @ r) p"
  by (induction p) simp_all

lemma str_includes_append: "str_includes (p @ r) p"
  by (cases p) (simp_all add: startsWith_append, cases r, simp_all)

lemma set_string_of_nat: "set (string_of_nat n) \<subseteq> set ''0123456789''"
proof (induction n rule: string_of_nat.induct)
  case (1 n)
  have nth: "\<And>d. d < 10 \<Longrightarrow> ''0123456789'' ! d \<in> set ''0123456789''"
    by (rule nth_mem) simp
  show ?case
  proof (cases "n < 10")
    case True
    then show ?thesis using nth [of n] by (subst string_of_nat.simps) simp
  next
    case False
    have "n mod 10 < 10" by simp
    then show ?thesis using False 1 nth [of "n mod 10"]
      by (subst string_of_nat.simps) simp
  qed
qed

lemma set_sandwich: "ch \<in> set (a @ b @ c) \<Longrightarrow> ch \<in> set (a @ c) \<or> ch \<in> set b"
  by auto

lemma multi_text_excludes:
  assumes "ch \<in> set pat" and "ch \<notin> set ''Multiple faces detected ()''"
    and "ch \<notin> set ''0123456789''"
  shows "\<not> str_includes (''Multiple faces detected ('' @ string_of_nat n @ '')'') pat"
proof
  assume "str_includes (''Multiple faces detected ('' @ string_of_nat n @ '')'') pat"
  then have "set pat \<subseteq> set (''Multiple faces detected ('' @ string_of_nat n @ '')'')"
    by (rule str_includes_set)
  with assms(1) have "ch \<in> set (''Multiple faces detected ('' @ string_of_nat n @ '')'')"
    by blast
  then have "ch \<in> set ''Multiple faces detected ()'' \<or> ch \<in> set (string_of_nat n)"
    using set_sandwich [of ch "''Multiple faces detected (''" "string_of_nat n" "'')''"]
    by simp
  with assms(2) have "ch \<in> set (string_of_nat n)" by blast
  with set_string_of_nat [of n] assms(3) show False by blast
qed

lemma multi_excludes:
  "\<not> str_includes (''Multiple faces detected ('' @ string_of_nat n @ '')'') ''No face detected''"
  "\<not> str_includes (''Multiple faces detected ('' @ string_of_nat n @ '')'') ''Suspicious Item Detected''"
  "\<not> str_includes (''Multiple faces detected ('' @ string_of_nat n @ '')'') ''Eyes closed''"
  "\<not> str_includes (''Multiple faces detected ('' @ string_of_nat n @ '')'') ''looking away''"
  by (rule multi_text_excludes [where ch = "CHR ''N''"], simp, simp, simp)
     (rule multi_text_excludes [where ch = "CHR ''S''"], simp, simp, simp,
      rule multi_text_excludes [where ch = "CHR ''E''"], simp, simp, simp,
      rule multi_text_excludes [where ch = "CHR ''k''"], simp, simp, simp)

lemma multi_includes:
  "str_includes (''Multiple faces detected ('' @ string_of_nat n @ '')'') ''Multiple faces detected''"
  using str_includes_append [of "''Multiple faces detected''" "'' ('' @ string_of_nat n @ '')''"]
  by simp

lemma fixed_includes:
  "str_includes ''No face detected for more than 5 seconds'' ''No face detected''"
  "\<not> str_includes ''No face detected for more than 5 seconds'' ''Multiple faces detected''"
  "\<not> str_includes ''No face detected for more than 5 seconds'' ''Suspicious Item Detected''"
  "\<not> str_includes ''No face detected for more than 5 seconds'' ''Eyes closed''"
  "\<not> str_includes ''No face detected for more than 5 seconds'' ''looking away''"
  "\<not> str_includes ''User looking away'' ''No face detected''"
  "\<not> str_includes ''User looking away'' ''Multiple faces detected''"
  "\<not> str_includes ''User looking away'' ''Suspicious Item Detected''"
  "\<not> str_includes ''User looking away'' ''Eyes closed''"
  "str_includes ''User looking away'' ''looking away''"
  "\<not> str_includes ''Eyes closed detected'' ''No face detected''"
  "\<not> str_includes ''Eyes closed detected'' ''Multiple faces detected''"
  "\<not> str_includes ''Eyes closed detected'' ''Suspicious Item Detected''"
  "str_includes ''Eyes closed detected'' ''Eyes closed''"
  "\<not> str_includes ''Eyes closed detected'' ''looking away''"
  by simp_all

lemma item_includes:
  assumes "label \<in> set suspiciousItems"
  shows "\<not> str_includes (''Suspicious Item Detected: '' @ label) ''No face detected''"
    and "\<not> str_includes (''Suspicious Item Detected: '' @ label) ''Multiple faces detected''"
    and "str_includes (''Suspicious Item Detected: '' @ label) ''Suspicious Item Detected''"
    and "\<not> str_includes (''Suspicious Item Detected: '' @ label) ''Eyes closed''"
    and "\<not> str_includes (''Suspicious Item Detected: '' @ label) ''looking away''"
  using assms by (auto simp add: suspiciousItems_def)

lemma eventText_includes:
  assumes "validKind k"
  shows "str_includes (eventText k) ''No face detected'' = isAbsence k"
    and "str_includes (eventText k) ''Multiple faces detected'' = isMultipleFaces k"
    and "str_includes (eventText k) ''Suspicious Item Detected'' = isSuspiciousItem k"
    and "str_includes (eventText k) ''Eyes closed'' = isEyesClosed k"
    and "str_includes (eventText k) ''looking away'' = isLookingAway k"
proof -
  have "str_includes (eventText k) ''No face detected'' = isAbsence k
      \<and> str_includes (eventText k) ''Multiple faces detected'' = isMultipleFaces k
      \<and> str_includes (eventText k) ''Suspicious Item Detected'' = isSuspiciousItem k
      \<and> str_includes (eventText k) ''Eyes closed'' = isEyesClosed k
      \<and> str_includes (eventText k) ''looking away'' = isLookingAway k"
  proof (cases k)
    case NoFaceDetected
    then show ?thesis
      by (simp only: eventText.simps EventKind.disc fixed_includes simp_thms)
  next
    case (MultipleFacesDetected n)
    then show ?thesis
      by (simp only: eventText.simps EventKind.disc multi_includes multi_excludes simp_thms)
  next
    case (SuspiciousItemDetected label)
    with assms have "label \<in> set suspiciousItems" by (simp only: validKind.simps)
    then show ?thesis using SuspiciousItemDetected
      by (simp only: eventText.simps EventKind.disc item_includes simp_thms)
  next
    case LookingAway
    then show ?thesis
      by (simp only: eventText.simps EventKind.disc fixed_includes simp_thms)
  next
    case EyesClosed
    then show ?thesis
      by (simp only: eventText.simps EventKind.disc fixed_includes simp_thms)
  qed
  then show "str_includes (eventText k) ''No face detected'' = isAbsence k"
    and "str_includes (eventText k) ''Multiple faces detected'' = isMultipleFaces k"
    and "str_includes (eventText k) ''Suspicious Item Detected'' = isSuspiciousItem k"
    and "str_includes (eventText k) ''Eyes closed'' = isEyesClosed k"
    and "str_includes (eventText k) ''looking away'' = isLookingAway k"
    by blast+
qed


lemma filter_logOf:
  "length (filter (\<lambda>log. str_includes (event log) pat) (logOf evs)) =
     length (filter (\<lambda>(ts, k). str_includes (eventText k) pat) evs)"
  by (induction evs) (simp_all add: logOf_def split_def del: eventText.simps)

lemma filter_valid_cong:
  assumes "\<forall>(ts, k) \<in> set evs. validKind k"
    and "\<And>k. validKind k \<Longrightarrow> str_includes (eventText k) pat = isKind k"
  shows "length (filter (\<lambda>(ts, k). str_includes (eventText k) pat) evs) = countKind isKind evs"
  unfolding countKind_def
  using assms
  by (intro arg_cong [where f = length] filter_cong refl) auto

lemma counts_logOf:
  assumes "\<forall>(ts, k) \<in> set evs. validKind k"
  shows "focusLostEvents (logOf evs) = countKind isAbsence evs"
    and "multipleFacesEvents (logOf evs) = countKind isMultipleFaces evs"
    and "suspiciousItemEvents (logOf evs) = countKind isSuspiciousItem evs"
    and "eyesClosedEvents (logOf evs) = countKind isEyesClosed evs"
    and "lookingAwayEvents (logOf evs) = countKind isLookingAway evs"
  unfolding focusLostEvents_def multipleFacesEvents_def suspiciousItemEvents_def
    eyesClosedEvents_def lookingAwayEvents_def filter_logOf
  by (rule filter_valid_cong [OF assms], erule eventText_includes)+

section \<open>What a cycle appends and what it leaves\<close>

lemma cycleTexts_kinds: "cycleTexts c s = map eventText (cycleKinds c s)"
  by (simp add: cycleTexts_def cycleKinds_def faceTexts_def multiTexts_def itemTexts_def
      gazeTexts_def o_def) (simp split: option.split)

lemma cycleKinds_valid: "k \<in> set (cycleKinds c s) \<Longrightarrow> validKind k"
  by (cases "personCount c = 1"; cases "videoRefCurrent c")
     (auto simp add: cycleKinds_def split: if_splits)

lemma emitted_logOf: "emitted c s = logOf (map (Pair (isoString c)) (cycleKinds c s))"
  by (simp add: emitted_eq cycleTexts_kinds logOf_def entry_def o_def)

lemma stamped_valid: "\<forall>(ts, k) \<in> set (map (Pair (isoString c)) (cycleKinds c s)). validKind k"
  by (auto dest: cycleKinds_valid)

lemma countKind_stamped: "countKind isKind (map (Pair ts) ks) = length (filter isKind ks)"
  by (simp add: countKind_def filter_map o_def)

lemma emitted_counts:
  "focusLostEvents (emitted c s) =
     (if personCount c = 0 \<and> currentTime c - lastFaceCheckTime s > 5000 then 1 else 0)"
  "multipleFacesEvents (emitted c s) =
     (if personCount c > 1 \<and> currentTime c - lastMultipleFacesTime s > 5000 then 1 else 0)"
  "suspiciousItemEvents (emitted c s) =
     (if currentTime c - lastItemDetectionTime s > 2000
      then length (filter (\<lambda>p. pred_class p \<in> set suspiciousItems) (predictions c)) else 0)"
  "eyesClosedEvents (emitted c s) =
     (if personCount c = 1 then
        (case videoRefCurrent c of None \<Rightarrow> 0
         | Some v \<Rightarrow> if checkEyesClosed (hd (personPredictions c)) (videoHeight v) then 1 else 0)
      else 0)"
  "lookingAwayEvents (emitted c s) =
     (if personCount c = 1 then
        (case videoRefCurrent c of None \<Rightarrow> 0
         | Some v \<Rightarrow> if checkLookingAwayBoundingBox (hd (personPredictions c)) (videoWidth v) \<and>
                         currentTime c - lastLookAwayTime s > 5000 then 1 else 0)
      else 0)"
  unfolding emitted_logOf counts_logOf [OF stamped_valid] countKind_stamped
  by (cases "personCount c = 1"; cases "videoRefCurrent c"; simp add: cycleKinds_def o_def)+

lemma counts_append:
  "focusLostEvents (xs @ ys) = focusLostEvents xs + focusLostEvents ys"
  "multipleFacesEvents (xs @ ys) = multipleFacesEvents xs + multipleFacesEvents ys"
  "suspiciousItemEvents (xs @ ys) = suspiciousItemEvents xs + suspiciousItemEvents ys"
  "eyesClosedEvents (xs @ ys) = eyesClosedEvents xs + eyesClosedEvents ys"
  "lookingAwayEvents (xs @ ys) = lookingAwayEvents xs + lookingAwayEvents ys"
  by (simp_all add: focusLostEvents_def multipleFacesEvents_def suspiciousItemEvents_def
      eyesClosedEvents_def lookingAwayEvents_def)

lemma intervalCallback_emitted:
  "eventLogs (snd (intervalCallback c s)) = eventLogs s @ emitted c s"
  by (simp add: intervalCallback_logs emitted_eq)

lemma gazeTexts_cong:
  "lastLookAwayTime s' = lastLookAwayTime s \<Longrightarrow> gazeTexts c s' = gazeTexts c s"
  by (simp add: gazeTexts_def cong: option.case_cong)

lemma intervalCallback_last:
  "lastFaceCheckTime (snd (intervalCallback c s)) =
     (if personCount c = 0 \<and> currentTime c - lastFaceCheckTime s \<le> 5000
      then lastFaceCheckTime s else currentTime c)"
  "lastMultipleFacesTime (snd (intervalCallback c s)) =
     (if personCount c > 1 \<and> currentTime c - lastMultipleFacesTime s > 5000
      then currentTime c else lastMultipleFacesTime s)"
  "lastItemDetectionTime (snd (intervalCallback c s)) =
     (if currentTime c - lastItemDetectionTime s > 2000
      then currentTime c else lastItemDetectionTime s)"
  "lastLookAwayTime (snd (intervalCallback c s)) =
     (if ''User looking away'' \<in> set (gazeTexts c s) then currentTime c else lastLookAwayTime s)"
proof -
  let ?s3 = "suspiciousItemsScan c (multipleFaces c (faceDetection c s))"
  have g: "gazeTexts c ?s3 = gazeTexts c s"
    by (rule gazeTexts_cong) simp
  show "lastFaceCheckTime (snd (intervalCallback c s)) =
     (if personCount c = 0 \<and> currentTime c - lastFaceCheckTime s \<le> 5000
      then lastFaceCheckTime s else currentTime c)"
    unfolding intervalCallback_def by (simp add: faceDetection_last)
  show "lastMultipleFacesTime (snd (intervalCallback c s)) =
     (if personCount c > 1 \<and> currentTime c - lastMultipleFacesTime s > 5000
      then currentTime c else lastMultipleFacesTime s)"
    unfolding intervalCallback_def by (simp add: multipleFaces_last)
  show "lastItemDetectionTime (snd (intervalCallback c s)) =
     (if currentTime c - lastItemDetectionTime s > 2000
      then currentTime c else lastItemDetectionTime s)"
    unfolding intervalCallback_def by (simp add: suspiciousItemsScan_last)
  show "lastLookAwayTime (snd (intervalCallback c s)) =
     (if ''User looking away'' \<in> set (gazeTexts c s) then currentTime c else lastLookAwayTime s)"
    unfolding intervalCallback_def lookAwayEyesClosed_last g by simp
qed

lemma run_Nil [simp]: "run s [] = s"
  by (simp add: run_def)

lemma run_Cons [simp]: "run s (c # cs) = run (snd (intervalCallback c s)) cs"
  by (simp add: run_def)

lemma run_append: "run s (cs @ ds) = run (run s cs) ds"
  by (simp add: run_def)

lemma cycle_counts:
  "focusLostEvents (eventLogs (snd (intervalCallback c s))) =
     focusLostEvents (eventLogs s) + focusLostEvents (emitted c s)"
  "multipleFacesEvents (eventLogs (snd (intervalCallback c s))) =
     multipleFacesEvents (eventLogs s) + multipleFacesEvents (emitted c s)"
  "suspiciousItemEvents (eventLogs (snd (intervalCallback c s))) =
     suspiciousItemEvents (eventLogs s) + suspiciousItemEvents (emitted c s)"
  "eyesClosedEvents (eventLogs (snd (intervalCallback c s))) =
     eyesClosedEvents (eventLogs s) + eyesClosedEvents (emitted c s)"
  "lookingAwayEvents (eventLogs (snd (intervalCallback c s))) =
     lookingAwayEvents (eventLogs s) + lookingAwayEvents (emitted c s)"
  by (simp_all only: intervalCallback_emitted counts_append)


section \<open>The absence rule\<close>

lemma run_absent_quiet:
  assumes "\<forall>c \<in> set pre. personCount c = 0 \<and> currentTime c - lastFaceCheckTime s \<le> 5000"
  shows "focusLostEvents (eventLogs (run s pre)) = focusLostEvents (eventLogs s)
         \<and> lastFaceCheckTime (run s pre) = lastFaceCheckTime s"
  using assms
proof (induction pre arbitrary: s)
  case Nil
  then show ?case by simp
next
  case (Cons c pre)
  let ?s1 = "snd (intervalCallback c s)"
  from Cons.prems have c: "personCount c = 0" "currentTime c - lastFaceCheckTime s \<le> 5000"
    by simp_all
  have l: "lastFaceCheckTime ?s1 = lastFaceCheckTime s"
    using c by (simp add: intervalCallback_last)
  have n: "focusLostEvents (eventLogs ?s1) = focusLostEvents (eventLogs s)"
    using c by (simp add: cycle_counts emitted_counts)
  have "\<forall>c \<in> set pre. personCount c = 0 \<and> currentTime c - lastFaceCheckTime ?s1 \<le> 5000"
    using Cons.prems l by simp
  from Cons.IH [OF this] show ?case using l n by simp
qed

text \<open>
  C1, as the code has it. In a run of ticks that all report zero persons, no
  NoFaceDetected event is logged on the ticks that come up to 5000 ms after the time in
  \<open>lastFaceCheckTime\<close> (the last presence, the mount, or the last such event); the first
  tick more than 5000 ms after it logs exactly one, and sets \<open>lastFaceCheckTime\<close> to its own
  time. The gate is thereby measured from that event, so while the absence continues the
  event is logged again on the first tick more than 5000 ms after the previous one.
\<close>

theorem absence_rule_gate:
  assumes "\<forall>p \<in> set pre. personCount p = 0 \<and> currentTime p - lastFaceCheckTime s \<le> 5000"
    and "personCount c = 0"
    and "currentTime c - lastFaceCheckTime s > 5000"
  shows "focusLostEvents (eventLogs (run s pre)) = focusLostEvents (eventLogs s)
         \<and> focusLostEvents (eventLogs (run s (pre @ [c]))) = focusLostEvents (eventLogs s) + 1
         \<and> lastFaceCheckTime (run s (pre @ [c])) = currentTime c"
proof -
  let ?s1 = "run s pre"
  note q = run_absent_quiet [OF assms(1)]
  from q have a: "focusLostEvents (eventLogs ?s1) = focusLostEvents (eventLogs s)" ..
  from q have l: "lastFaceCheckTime ?s1 = lastFaceCheckTime s" ..
  have r: "run s (pre @ [c]) = snd (intervalCallback c ?s1)"
    by (simp add: run_append)
  have "focusLostEvents (eventLogs (run s (pre @ [c]))) = focusLostEvents (eventLogs s) + 1"
    using assms(2,3) by (simp add: r cycle_counts emitted_counts l a)
  moreover have "lastFaceCheckTime (run s (pre @ [c])) = currentTime c"
    using assms(2,3) by (simp add: r intervalCallback_last l)
  ultimately show ?thesis using a by blast
qed

theorem absence_rule_gate_witness:
  "focusLostEvents (eventLogs (run (initialState sampleMount)
      (map (\<lambda>k. sampleCycle k []) [1..<6]))) = 0
   \<and> focusLostEvents (eventLogs (run (initialState sampleMount)
      (map (\<lambda>k. sampleCycle k []) [1..<6] @ [sampleCycle 6 []]))) = 1
   \<and> lastFaceCheckTime (run (initialState sampleMount)
      (map (\<lambda>k. sampleCycle k []) [1..<6] @ [sampleCycle 6 []])) = sampleMount + 6000"
proof -
  let ?s = "initialState sampleMount"
  let ?pre = "map (\<lambda>k. sampleCycle k []) [1..<6]"
  have 1: "\<forall>p \<in> set ?pre. personCount p = 0 \<and> currentTime p - lastFaceCheckTime ?s \<le> 5000"
    by code_simp
  have 2: "personCount (sampleCycle 6 []) = 0" by code_simp
  have 3: "currentTime (sampleCycle 6 []) - lastFaceCheckTime ?s > 5000" by code_simp
  have 4: "focusLostEvents (eventLogs ?s) = 0" by code_simp
  have 5: "currentTime (sampleCycle 6 []) = sampleMount + 6000" by code_simp
  show ?thesis using absence_rule_gate [OF 1 2 3] unfolding 4 5 by simp
qed

text \<open>
  C1 as stated fails: twelve ticks one second apart, all without a person, starting one
  second after the mount, log two NoFaceDetected events (at 6 s and at 12 s), not one.
\<close>

theorem absence_repeats_counterexample:
  "map personCount absentTicks = replicate 12 0
   \<and> focusLostEvents (eventLogs (run (initialState sampleMount) absentTicks)) = 2"
  by code_simp


section \<open>The sampler\<close>

lemma timerFires_notReady: "notReady v \<Longrightarrow> timerFires v sys = sys"
  by (simp add: timerFires_def)

lemma runSampler_Nil [simp]: "runSampler sys [] = sys"
  by (simp add: runSampler_def)

lemma runSampler_Cons [simp]: "runSampler sys (x # xs) = runSampler (step sys x) xs"
  by (simp add: runSampler_def)

lemma runSampler_append: "runSampler sys (xs @ ys) = runSampler (runSampler sys xs) ys"
  by (simp add: runSampler_def)

text \<open>
  C2, as the code has it. The timer callback has no in-flight guard: every tick on which
  the video is ready starts a detection call, whether or not earlier calls are still
  pending, so after \<open>n\<close> such ticks with no call resolved \<open>n\<close> more cycles are in flight.
  A tick by itself changes nothing of the component's state; the rules run when a
  detection resolves.
\<close>

theorem ready_ticks_all_start_detection:
  assumes "\<forall>v \<in> set vs. \<exists>el. v = Some el \<and> 2 \<le> readyState el"
  shows "inFlight (runSampler sys (map TimerFires vs)) = inFlight sys + length vs
         \<and> component (runSampler sys (map TimerFires vs)) = component sys"
  using assms
proof (induction vs arbitrary: sys)
  case Nil
  then show ?case by simp
next
  case (Cons v vs)
  then have "\<not> notReady v" by (auto simp add: notReady_def)
  then have "step sys (TimerFires v) = sys\<lparr>inFlight := inFlight sys + 1\<rparr>"
    by (simp add: timerFires_def)
  then show ?case using Cons.IH [of "sys\<lparr>inFlight := inFlight sys + 1\<rparr>"] Cons.prems
    by simp
qed

theorem ready_ticks_all_start_detection_witness:
  "inFlight (runSampler (initialSampler sampleMount)
      (map TimerFires [Some readyVideo, Some readyVideo, Some readyVideo])) = 3
   \<and> component (runSampler (initialSampler sampleMount)
      (map TimerFires [Some readyVideo, Some readyVideo, Some readyVideo])) =
     initialState sampleMount"
proof -
  have h: "\<forall>v \<in> set [Some readyVideo, Some readyVideo, Some readyVideo].
             \<exists>el. v = Some el \<and> 2 \<le> readyState el"
    by (simp add: readyVideo_def)
  show ?thesis
    using ready_ticks_all_start_detection [OF h, of "initialSampler sampleMount"]
    by (simp add: initialSampler_def)
qed

text \<open>
  C2 as stated fails: two ticks with a ready video and no detection resolved in between
  leave two cycles in flight; the second tick is not skipped.
\<close>

theorem in_flight_guard_counterexample:
  "inFlight (runSampler (initialSampler sampleMount)
      [TimerFires (Some readyVideo), TimerFires (Some readyVideo)]) = 2"
  by (simp add: timerFires_def notReady_def readyVideo_def initialSampler_def)

text \<open>
  C9. On a tick where \<open>videoRef.current\<close> is \<open>null\<close> or its \<open>readyState\<close> is below 2, the
  callback returns at once: no detection call is started, no event is logged and no
  cooldown time changes; the whole state is as before, so whatever follows runs as if
  the skipped ticks had not happened.
\<close>

theorem not_ready_tick_skipped:
  assumes "\<forall>v \<in> set vs. v = None \<or> (\<exists>el. v = Some el \<and> readyState el < 2)"
  shows "runSampler sys (map TimerFires vs) = sys
         \<and> runSampler sys (map TimerFires vs @ rest) = runSampler sys rest"
proof -
  have "runSampler sys (map TimerFires vs) = sys"
    using assms
  proof (induction vs)
    case Nil
    then show ?case by simp
  next
    case (Cons v vs)
    then have "notReady v" by (auto simp add: notReady_def)
    then show ?case using Cons by (simp add: timerFires_notReady)
  qed
  then show ?thesis by (simp add: runSampler_append)
qed

theorem not_ready_tick_skipped_witness:
  "runSampler (initialSampler sampleMount) (map TimerFires [None, Some loadingVideo]) =
     initialSampler sampleMount
   \<and> runSampler (initialSampler sampleMount)
       (map TimerFires [None, Some loadingVideo] @ [TimerFires (Some readyVideo)]) =
     (initialSampler sampleMount)\<lparr>inFlight := 1\<rparr>"
proof -
  have h: "\<forall>v \<in> set [None, Some loadingVideo]. v = None \<or> (\<exists>el. v = Some el \<and> readyState el < 2)"
    by (simp add: loadingVideo_def)
  have r: "runSampler (initialSampler sampleMount) [TimerFires (Some readyVideo)] =
             (initialSampler sampleMount)\<lparr>inFlight := 1\<rparr>"
    by (simp add: timerFires_def notReady_def readyVideo_def initialSampler_def)
  note t = not_ready_tick_skipped
             [OF h, of "initialSampler sampleMount" "[TimerFires (Some readyVideo)]"]
  from t have a: "runSampler (initialSampler sampleMount) (map TimerFires [None, Some loadingVideo]) =
     initialSampler sampleMount" ..
  from t have b: "runSampler (initialSampler sampleMount)
       (map TimerFires [None, Some loadingVideo] @ [TimerFires (Some readyVideo)]) =
     runSampler (initialSampler sampleMount) [TimerFires (Some readyVideo)]" ..
  show ?thesis unfolding a b r by simp
qed


section \<open>The session log\<close>

lemma run_logs_extend: "\<exists>new. eventLogs (run s cs) = eventLogs s @ new"
proof (induction cs arbitrary: s)
  case Nil
  then show ?case by simp
next
  case (Cons c cs)
  from Cons [of "snd (intervalCallback c s)"] obtain new
    where "eventLogs (run (snd (intervalCallback c s)) cs) =
             eventLogs (snd (intervalCallback c s)) @ new" ..
  then have "eventLogs (run s (c # cs)) = eventLogs s @ (emitted c s @ new)"
    by (simp add: intervalCallback_emitted)
  then show ?case ..
qed

lemma emitted_timestamps: "e \<in> set (emitted c s) \<Longrightarrow> timestamp e = isoString c"
  by (auto simp add: emitted_eq entry_def)

lemma run_sorted:
  assumes "\<forall>x. le x x"
    and "sorted_wrt le (map timestamp (eventLogs s))"
    and "sorted_wrt le (map isoString cs)"
    and "\<forall>e \<in> set (eventLogs s). \<forall>c \<in> set cs. le (timestamp e) (isoString c)"
  shows "sorted_wrt le (map timestamp (eventLogs (run s cs)))"
  using assms(2-)
proof (induction cs arbitrary: s)
  case Nil
  then show ?case by simp
next
  case (Cons c cs)
  let ?s1 = "snd (intervalCallback c s)"
  have logs: "eventLogs ?s1 = eventLogs s @ emitted c s"
    by (rule intervalCallback_emitted)
  have new: "\<forall>e \<in> set (emitted c s). timestamp e = isoString c"
    by (simp add: emitted_timestamps)
  have "sorted_wrt le (map timestamp (emitted c s))"
    using new assms(1) by (simp add: sorted_wrt_iff_nth_less)
  moreover have "\<forall>e \<in> set (eventLogs s). \<forall>e' \<in> set (emitted c s). le (timestamp e) (timestamp e')"
    using Cons.prems(3) new by simp
  ultimately have 1: "sorted_wrt le (map timestamp (eventLogs ?s1))"
    using Cons.prems(1) by (simp add: logs sorted_wrt_append)
  have 2: "sorted_wrt le (map isoString cs)"
    using Cons.prems(2) by simp
  have 3: "\<forall>e \<in> set (eventLogs ?s1). \<forall>c' \<in> set cs. le (timestamp e) (isoString c')"
    using Cons.prems(2,3) new by (auto simp add: logs)
  show ?case using Cons.IH [OF 1 2 3] by simp
qed

lemma isoLe_refl: "isoLe x x"
  by (induction x) simp_all

text \<open>
  C8. \<open>addEvent\<close> places the new entry at the end of the log. Over every sequence of
  cycles the log keeps its earlier entries in place and unchanged, so its length never
  decreases. Its order is the order of insertion: when the timestamps of the cycles do
  not decrease (under any reflexive comparison \<open>le\<close>) and the log was ordered before, it
  stays ordered, entries of one cycle sharing their timestamp.
\<close>

theorem session_log_append_only:
  "eventLogs (addEvent ts txt s) = eventLogs s @ [\<lparr>timestamp = ts, event = txt\<rparr>]
   \<and> take (length (eventLogs s)) (eventLogs (run s cs)) = eventLogs s
   \<and> length (eventLogs s) \<le> length (eventLogs (run s cs))
   \<and> ((\<forall>x. le x x) \<and> sorted_wrt le (map timestamp (eventLogs s)) \<and>
        sorted_wrt le (map isoString cs) \<and>
        (\<forall>e \<in> set (eventLogs s). \<forall>c \<in> set cs. le (timestamp e) (isoString c))
        \<longrightarrow> sorted_wrt le (map timestamp (eventLogs (run s cs))))"
proof -
  obtain new where "eventLogs (run s cs) = eventLogs s @ new"
    using run_logs_extend ..
  then show ?thesis using run_sorted [of le s cs] by simp
qed

theorem session_log_append_only_witness:
  "take (length (eventLogs (snd (intervalCallback (sampleCycle 1 busyFrame) (initialState sampleMount)))))
     (eventLogs (run (snd (intervalCallback (sampleCycle 1 busyFrame) (initialState sampleMount)))
        [sampleCycle 2 busyFrame, sampleCycle 3 []])) =
     eventLogs (snd (intervalCallback (sampleCycle 1 busyFrame) (initialState sampleMount)))
   \<and> sorted_wrt isoLe (map timestamp
        (eventLogs (run (snd (intervalCallback (sampleCycle 1 busyFrame) (initialState sampleMount)))
           [sampleCycle 2 busyFrame, sampleCycle 3 []])))"
proof -
  let ?s1 = "snd (intervalCallback (sampleCycle 1 busyFrame) (initialState sampleMount))"
  let ?cs = "[sampleCycle 2 busyFrame, sampleCycle 3 []]"
  have 1: "\<forall>x. isoLe x x" by (simp add: isoLe_refl)
  have 2: "sorted_wrt isoLe (map timestamp (eventLogs ?s1))" by code_simp
  have 3: "sorted_wrt isoLe (map isoString ?cs)" by code_simp
  have 4: "\<forall>e \<in> set (eventLogs ?s1). \<forall>c \<in> set ?cs. isoLe (timestamp e) (isoString c)"
    by code_simp
  show ?thesis
    using session_log_append_only [of _ _ ?s1 ?cs isoLe] 1 2 3 4 by blast
qed

text \<open>
  C10. The timestamp string is read once per cycle, before any rule runs: every entry a
  cycle appends carries that one string, and the entries stand in the log in the order
  of the blocks that emitted them (absence, multiple faces, prohibited objects in the
  order of the predictions, looking away, eyes closed).
\<close>

theorem cycle_events_share_timestamp:
  "eventLogs (snd (intervalCallback c s)) = eventLogs s @ emitted c s
   \<and> emitted c s =
       map (\<lambda>txt. \<lparr>timestamp = isoString c, event = txt\<rparr>)
         (faceTexts c s @ multiTexts c s @ itemTexts c s @ gazeTexts c s)
   \<and> (\<forall>e \<in> set (emitted c s). timestamp e = isoString c)"
proof -
  have e: "emitted c s =
       map (\<lambda>txt. \<lparr>timestamp = isoString c, event = txt\<rparr>)
         (faceTexts c s @ multiTexts c s @ itemTexts c s @ gazeTexts c s)"
    unfolding emitted_eq cycleTexts_def entry_def ..
  have "\<forall>e \<in> set (emitted c s). timestamp e = isoString c"
    unfolding e by auto
  with e intervalCallback_emitted [of c s] show ?thesis by blast
qed

theorem cycle_events_share_timestamp_witness:
  "emitted (sampleCycle 1 busyFrame) (initialState sampleMount) =
     [\<lparr>timestamp = ''2023-11-14T22:13:21.000Z'', event = ''Suspicious Item Detected: cell phone''\<rparr>,
      \<lparr>timestamp = ''2023-11-14T22:13:21.000Z'', event = ''Suspicious Item Detected: book''\<rparr>,
      \<lparr>timestamp = ''2023-11-14T22:13:21.000Z'', event = ''Eyes closed detected''\<rparr>]
   \<and> eventLogs (snd (intervalCallback (sampleCycle 1 busyFrame) (initialState sampleMount))) =
       eventLogs (initialState sampleMount) @
         emitted (sampleCycle 1 busyFrame) (initialState sampleMount)"
proof -
  have t: "faceTexts (sampleCycle 1 busyFrame) (initialState sampleMount) @
           multiTexts (sampleCycle 1 busyFrame) (initialState sampleMount) @
           itemTexts (sampleCycle 1 busyFrame) (initialState sampleMount) @
           gazeTexts (sampleCycle 1 busyFrame) (initialState sampleMount) =
           [''Suspicious Item Detected: cell phone'', ''Suspicious Item Detected: book'',
            ''Eyes closed detected'']"
    by code_simp
  have i: "isoString (sampleCycle 1 busyFrame) = ''2023-11-14T22:13:21.000Z''"
    by code_simp
  show ?thesis
    using cycle_events_share_timestamp [of "sampleCycle 1 busyFrame" "initialState sampleMount"]
    unfolding t i by simp
qed

section \<open>The cooldown rules\<close>

lemma gaze_fired_iff:
  "(''User looking away'' \<in> set (gazeTexts c s)) = (lookingAwayEvents (emitted c s) \<noteq> 0)"
  by (cases "personCount c = 1"; cases "videoRefCurrent c")
     (simp_all add: emitted_counts gazeTexts_def)

text \<open>
  C4, as the code has it. The multiple-faces and the looking-away rule write their
  time exactly on the cycles in which they log their event, and leave it unchanged on
  every other cycle. The prohibited-object rule writes \<open>lastItemDetectionTime\<close> on every
  cycle that comes more than 2000 ms after the time it holds, whether or not a
  prohibited object is among the predictions; on the other cycles it logs nothing and
  leaves the time unchanged.
\<close>

theorem cooldown_timestamps:
  "(multipleFacesEvents (emitted c s) = 0 \<longrightarrow>
      lastMultipleFacesTime (snd (intervalCallback c s)) = lastMultipleFacesTime s)
   \<and> (multipleFacesEvents (emitted c s) \<noteq> 0 \<longrightarrow>
      lastMultipleFacesTime (snd (intervalCallback c s)) = currentTime c)
   \<and> (lookingAwayEvents (emitted c s) = 0 \<longrightarrow>
      lastLookAwayTime (snd (intervalCallback c s)) = lastLookAwayTime s)
   \<and> (lookingAwayEvents (emitted c s) \<noteq> 0 \<longrightarrow>
      lastLookAwayTime (snd (intervalCallback c s)) = currentTime c)
   \<and> lastItemDetectionTime (snd (intervalCallback c s)) =
       (if currentTime c - lastItemDetectionTime s > 2000 then currentTime c
        else lastItemDetectionTime s)
   \<and> (currentTime c - lastItemDetectionTime s \<le> 2000 \<longrightarrow>
      suspiciousItemEvents (emitted c s) = 0)"
  by (simp add: intervalCallback_last gaze_fired_iff) (simp add: emitted_counts)

theorem cooldown_timestamps_witness:
  "lastMultipleFacesTime (snd (intervalCallback (sampleCycle 1 twoPersons) (initialState sampleMount)))
     = sampleMount + 1000
   \<and> lastLookAwayTime (snd (intervalCallback (sampleCycle 1 twoPersons) (initialState sampleMount)))
     = 0
   \<and> lastItemDetectionTime (snd (intervalCallback (sampleCycle 1 twoPersons) (initialState sampleMount)))
     = sampleMount + 1000
   \<and> suspiciousItemEvents (emitted (sampleCycle 2 busyFrame)
        (snd (intervalCallback (sampleCycle 1 twoPersons) (initialState sampleMount)))) = 0"
proof -
  let ?s = "initialState sampleMount"
  let ?c = "sampleCycle 1 twoPersons"
  have 1: "multipleFacesEvents (emitted ?c ?s) \<noteq> 0" by code_simp
  have 2: "lookingAwayEvents (emitted ?c ?s) = 0" by code_simp
  have 3: "currentTime ?c - lastItemDetectionTime ?s > 2000" by code_simp
  have 4: "currentTime ?c = sampleMount + 1000" by code_simp
  have 5: "lastLookAwayTime ?s = 0" by code_simp
  have 6: "currentTime (sampleCycle 2 busyFrame) - lastItemDetectionTime (snd (intervalCallback ?c ?s)) \<le> 2000"
    by code_simp
  show ?thesis
    using cooldown_timestamps [of ?c ?s]
          cooldown_timestamps [of "sampleCycle 2 busyFrame" "snd (intervalCallback ?c ?s)"]
          1 2 3 6
    unfolding 4 5 by simp
qed

text \<open>
  C4 as stated fails for the prohibited-object rule: a cycle with no predictions logs
  no event, and still moves \<open>lastItemDetectionTime\<close> from 0 to the time of the cycle.
\<close>

theorem item_scan_time_counterexample:
  "suspiciousItemEvents (emitted (sampleCycle 1 []) (initialState sampleMount)) = 0
   \<and> lastItemDetectionTime (initialState sampleMount) = 0
   \<and> lastItemDetectionTime (snd (intervalCallback (sampleCycle 1 []) (initialState sampleMount)))
       = 1700000001000"
  by code_simp

lemma run_items_quiet:
  assumes "\<forall>c \<in> set cs. currentTime c - lastItemDetectionTime s \<le> 2000"
  shows "suspiciousItemEvents (eventLogs (run s cs)) = suspiciousItemEvents (eventLogs s)
         \<and> lastItemDetectionTime (run s cs) = lastItemDetectionTime s"
  using assms
proof (induction cs arbitrary: s)
  case Nil
  then show ?case by simp
next
  case (Cons c cs)
  let ?s1 = "snd (intervalCallback c s)"
  from Cons.prems have c: "currentTime c - lastItemDetectionTime s \<le> 2000" by simp
  have l: "lastItemDetectionTime ?s1 = lastItemDetectionTime s"
    using c by (simp add: intervalCallback_last)
  have n: "suspiciousItemEvents (eventLogs ?s1) = suspiciousItemEvents (eventLogs s)"
    using c by (simp add: cycle_counts emitted_counts)
  have "\<forall>c \<in> set cs. currentTime c - lastItemDetectionTime ?s1 \<le> 2000"
    using Cons.prems l by simp
  from Cons.IH [OF this] show ?case using l n by simp
qed

lemma item_entry_emitted:
  assumes "currentTime c - lastItemDetectionTime s > 2000"
    and "p \<in> set (predictions c)" and "pred_class p \<in> set suspiciousItems"
  shows "entry c (''Suspicious Item Detected: '' @ pred_class p) \<in> set (emitted c s)"
proof -
  have "''Suspicious Item Detected: '' @ pred_class p \<in> set (itemTexts c s)"
    using assms by (auto simp add: itemTexts_def)
  then show ?thesis by (simp add: emitted_eq cycleTexts_def)
qed

text \<open>
  C5. A cycle that comes more than 2000 ms after \<open>lastItemDetectionTime\<close> and whose
  predictions include a cell phone and a book logs, in that cycle, the two distinct
  events for the two labels; the prohibited-object events of the cycle are one per
  matching prediction, so at least these two. No prohibited-object event is logged by
  the cycles that follow within 2000 ms of it, whatever they detect.
\<close>

theorem prohibited_object_rule:
  assumes "currentTime c - lastItemDetectionTime s > 2000"
    and "p1 \<in> set (predictions c)" and "pred_class p1 = ''cell phone''"
    and "p2 \<in> set (predictions c)" and "pred_class p2 = ''book''"
    and "\<forall>c' \<in> set cs. currentTime c' - currentTime c \<le> 2000"
  shows "\<lparr>timestamp = isoString c, event = ''Suspicious Item Detected: cell phone''\<rparr>
           \<in> set (emitted c s)
         \<and> \<lparr>timestamp = isoString c, event = ''Suspicious Item Detected: book''\<rparr>
           \<in> set (emitted c s)
         \<and> suspiciousItemEvents (emitted c s) =
             length (filter (\<lambda>p. pred_class p \<in> set suspiciousItems) (predictions c))
         \<and> 2 \<le> suspiciousItemEvents (emitted c s)
         \<and> suspiciousItemEvents (eventLogs (run (snd (intervalCallback c s)) cs)) =
             suspiciousItemEvents (eventLogs (snd (intervalCallback c s)))"
proof -
  let ?s1 = "snd (intervalCallback c s)"
  have a: "\<lparr>timestamp = isoString c, event = ''Suspicious Item Detected: cell phone''\<rparr>
             \<in> set (emitted c s)"
    using item_entry_emitted [OF assms(1,2)] assms(3)
    by (simp add: suspiciousItems_def entry_def)
  have b: "\<lparr>timestamp = isoString c, event = ''Suspicious Item Detected: book''\<rparr>
             \<in> set (emitted c s)"
    using item_entry_emitted [OF assms(1,4)] assms(5)
    by (simp add: suspiciousItems_def entry_def)
  have n: "suspiciousItemEvents (emitted c s) =
             length (filter (\<lambda>p. pred_class p \<in> set suspiciousItems) (predictions c))"
    using assms(1) by (simp add: emitted_counts)
  have "p1 \<noteq> p2" using assms(3,5) by auto
  moreover have "p1 \<in> set (filter (\<lambda>p. pred_class p \<in> set suspiciousItems) (predictions c))"
    and "p2 \<in> set (filter (\<lambda>p. pred_class p \<in> set suspiciousItems) (predictions c))"
    using assms(2-5) by (simp_all add: suspiciousItems_def)
  ultimately have "card {p1, p2} \<le> card (set (filter (\<lambda>p. pred_class p \<in> set suspiciousItems) (predictions c)))"
    by (intro card_mono) auto
  then have two: "2 \<le> length (filter (\<lambda>p. pred_class p \<in> set suspiciousItems) (predictions c))"
    using \<open>p1 \<noteq> p2\<close> card_length [of "filter (\<lambda>p. pred_class p \<in> set suspiciousItems) (predictions c)"]
    by simp
  have l: "lastItemDetectionTime ?s1 = currentTime c"
    using assms(1) by (simp add: intervalCallback_last)
  have "\<forall>c' \<in> set cs. currentTime c' - lastItemDetectionTime ?s1 \<le> 2000"
    using assms(6) l by simp
  from run_items_quiet [OF this] a b n two show ?thesis by simp
qed

theorem prohibited_object_rule_witness:
  "suspiciousItemEvents (emitted (sampleCycle 1 busyFrame) (initialState sampleMount)) = 2
   \<and> \<lparr>timestamp = isoString (sampleCycle 1 busyFrame),
        event = ''Suspicious Item Detected: cell phone''\<rparr>
       \<in> set (emitted (sampleCycle 1 busyFrame) (initialState sampleMount))
   \<and> \<lparr>timestamp = isoString (sampleCycle 1 busyFrame),
        event = ''Suspicious Item Detected: book''\<rparr>
       \<in> set (emitted (sampleCycle 1 busyFrame) (initialState sampleMount))
   \<and> suspiciousItemEvents (eventLogs (run
         (snd (intervalCallback (sampleCycle 1 busyFrame) (initialState sampleMount)))
         [sampleCycle 2 busyFrame, sampleCycle 3 busyFrame])) =
       suspiciousItemEvents (eventLogs
         (snd (intervalCallback (sampleCycle 1 busyFrame) (initialState sampleMount))))"
proof -
  let ?s = "initialState sampleMount"
  let ?c = "sampleCycle 1 busyFrame"
  let ?p1 = "samplePrediction ''cell phone'' (10, 10, 50, 80)"
  let ?p2 = "samplePrediction ''book'' (400, 300, 120, 90)"
  have 1: "currentTime ?c - lastItemDetectionTime ?s > 2000" by code_simp
  have 2: "?p1 \<in> set (predictions ?c)" by (simp add: sampleCycle_def busyFrame_def)
  have 3: "pred_class ?p1 = ''cell phone''" by (simp add: samplePrediction_def)
  have 4: "?p2 \<in> set (predictions ?c)" by (simp add: sampleCycle_def busyFrame_def)
  have 5: "pred_class ?p2 = ''book''" by (simp add: samplePrediction_def)
  have 6: "\<forall>c' \<in> set [sampleCycle 2 busyFrame, sampleCycle 3 busyFrame].
             currentTime c' - currentTime ?c \<le> 2000"
    by code_simp
  have 7: "length (filter (\<lambda>p. pred_class p \<in> set suspiciousItems) (predictions ?c)) = 2"
    by code_simp
  show ?thesis using prohibited_object_rule [OF 1 2 3 4 5 6] unfolding 7 by simp
qed

lemma multi_entry_emitted:
  assumes "personCount c > 1" and "currentTime c - lastMultipleFacesTime s > 5000"
  shows "entry c (''Multiple faces detected ('' @ string_of_nat (personCount c) @ '')'')
           \<in> set (emitted c s)"
  using assms by (simp add: emitted_eq cycleTexts_def multiTexts_def)

lemma string_of_nat_2: "string_of_nat 2 = ''2''"
  by (simp add: string_of_nat.simps)

text \<open>
  C6. Two consecutive cycles with two persons each, the second at most 5000 ms after
  the first, never log two MultipleFacesDetected events. When the cooldown is not
  running at the first cycle (as at the start of a session) they log exactly one, in
  the first cycle, with the count 2 in its text, and none in the second.
\<close>

theorem multiple_occupants_rule:
  assumes "personCount c1 = 2" and "personCount c2 = 2"
    and "currentTime c2 - currentTime c1 \<le> 5000"
  shows "multipleFacesEvents (eventLogs (run s [c1, c2])) \<le> multipleFacesEvents (eventLogs s) + 1
         \<and> (currentTime c1 - lastMultipleFacesTime s > 5000 \<longrightarrow>
              multipleFacesEvents (emitted c1 s) = 1
            \<and> \<lparr>timestamp = isoString c1, event = ''Multiple faces detected (2)''\<rparr>
                \<in> set (emitted c1 s)
            \<and> multipleFacesEvents (emitted c2 (snd (intervalCallback c1 s))) = 0
            \<and> multipleFacesEvents (eventLogs (run s [c1, c2])) =
                multipleFacesEvents (eventLogs s) + 1)"
proof -
  let ?s1 = "snd (intervalCallback c1 s)"
  have r: "multipleFacesEvents (eventLogs (run s [c1, c2])) =
             multipleFacesEvents (eventLogs s) + multipleFacesEvents (emitted c1 s) +
             multipleFacesEvents (emitted c2 ?s1)"
    by (simp add: cycle_counts)
  show ?thesis
  proof (cases "currentTime c1 - lastMultipleFacesTime s > 5000")
    case True
    then have l: "lastMultipleFacesTime ?s1 = currentTime c1"
      using assms(1) by (simp add: intervalCallback_last)
    have 1: "multipleFacesEvents (emitted c1 s) = 1"
      using True assms(1) by (simp add: emitted_counts)
    have 2: "multipleFacesEvents (emitted c2 ?s1) = 0"
      using assms(2,3) l by (simp add: emitted_counts)
    have 3: "\<lparr>timestamp = isoString c1, event = ''Multiple faces detected (2)''\<rparr>
               \<in> set (emitted c1 s)"
      using multi_entry_emitted [of c1 s] True assms(1)
      by (simp add: string_of_nat_2 entry_def)
    show ?thesis using True r 1 2 3 by simp
  next
    case False
    then have "multipleFacesEvents (emitted c1 s) = 0"
      by (simp add: emitted_counts)
    moreover have "multipleFacesEvents (emitted c2 ?s1) \<le> 1"
      by (simp add: emitted_counts)
    ultimately show ?thesis using False r by simp
  qed
qed

theorem multiple_occupants_rule_witness:
  "multipleFacesEvents (eventLogs (run (initialState sampleMount)
      [sampleCycle 1 twoPersons, sampleCycle 2 twoPersons])) = 1
   \<and> \<lparr>timestamp = isoString (sampleCycle 1 twoPersons), event = ''Multiple faces detected (2)''\<rparr>
       \<in> set (emitted (sampleCycle 1 twoPersons) (initialState sampleMount))
   \<and> multipleFacesEvents (emitted (sampleCycle 2 twoPersons)
        (snd (intervalCallback (sampleCycle 1 twoPersons) (initialState sampleMount)))) = 0"
proof -
  let ?s = "initialState sampleMount"
  let ?c1 = "sampleCycle 1 twoPersons"
  let ?c2 = "sampleCycle 2 twoPersons"
  have 1: "personCount ?c1 = 2" by code_simp
  have 2: "personCount ?c2 = 2" by code_simp
  have 3: "currentTime ?c2 - currentTime ?c1 \<le> 5000" by code_simp
  have 4: "currentTime ?c1 - lastMultipleFacesTime ?s > 5000" by code_simp
  have 5: "multipleFacesEvents (eventLogs ?s) = 0" by code_simp
  show ?thesis using multiple_occupants_rule [OF 1 2 3, of ?s] 4 unfolding 5 by simp
qed

lemma personCount_one: "(personCount c = 1) = (\<exists>p. personPredictions c = [p])"
  by (cases "personPredictions c") (simp_all add: personCount_def)

lemma eyes_closed_tick:
  assumes "videoRefCurrent c = Some v" and "0 < videoHeight v"
  shows "eyesClosedEvents (emitted c s) = (if eyesClosedQualifies c then 1 else 0)"
proof (cases "personPredictions c")
  case Nil
  then have "personCount c \<noteq> 1" by (simp add: personCount_def)
  then show ?thesis using Nil assms by (simp add: emitted_counts eyesClosedQualifies_def)
next
  case (Cons p ps)
  show ?thesis
  proof (cases ps)
    case Nil
    with Cons have one: "personCount c = 1" by (simp add: personCount_def)
    show ?thesis using one Cons Nil assms
      by (simp add: emitted_counts eyesClosedQualifies_def checkEyesClosed_def)
  next
    case (Cons q qs)
    with \<open>personPredictions c = p # ps\<close> have "personCount c \<noteq> 1"
      by (simp add: personCount_def)
    then show ?thesis using Cons \<open>personPredictions c = p # ps\<close> assms
      by (simp add: emitted_counts eyesClosedQualifies_def)
  qed
qed

text \<open>
  C7. With a frame of positive height, a cycle logs one EyesClosed event when it has
  exactly one person whose box height over the frame height is below one tenth, and none
  otherwise, whatever the state: there is no cooldown, and over a run the number of
  EyesClosed events grows by the number of qualifying cycles.
\<close>

theorem eyes_closed_rule:
  assumes "\<forall>c \<in> set cs. \<exists>v. videoRefCurrent c = Some v \<and> 0 < videoHeight v"
  shows "eyesClosedEvents (eventLogs (run s cs)) =
           eyesClosedEvents (eventLogs s) + length (filter eyesClosedQualifies cs)
         \<and> (\<forall>c \<in> set cs. \<forall>s'. eyesClosedEvents (emitted c s') =
               (if eyesClosedQualifies c then 1 else 0))"
proof -
  have tick: "\<forall>c \<in> set cs. \<forall>s'. eyesClosedEvents (emitted c s') =
               (if eyesClosedQualifies c then 1 else 0)"
    using assms eyes_closed_tick by blast
  have "eyesClosedEvents (eventLogs (run s cs)) =
           eyesClosedEvents (eventLogs s) + length (filter eyesClosedQualifies cs)"
    using tick
  proof (induction cs arbitrary: s)
    case Nil
    then show ?case by simp
  next
    case (Cons c cs)
    then show ?case by (simp add: cycle_counts)
  qed
  with tick show ?thesis by blast
qed

theorem eyes_closed_rule_witness:
  "eyesClosedEvents (eventLogs (run (initialState sampleMount)
      [sampleCycle 1 busyFrame, sampleCycle 2 busyFrame, sampleCycle 3 twoPersons,
       sampleCycle 4 tallPerson, sampleCycle 5 []])) = 2"
proof -
  let ?cs = "[sampleCycle 1 busyFrame, sampleCycle 2 busyFrame, sampleCycle 3 twoPersons,
       sampleCycle 4 tallPerson, sampleCycle 5 []]"
  have 1: "\<forall>c \<in> set ?cs. \<exists>v. videoRefCurrent c = Some v \<and> 0 < videoHeight v"
    by (simp add: sampleCycle_def readyVideo_def)
  have 2: "length (filter eyesClosedQualifies ?cs) = 2" by code_simp
  have 3: "eyesClosedEvents (eventLogs (initialState sampleMount)) = 0" by code_simp
  show ?thesis using eyes_closed_rule [OF 1, of "initialState sampleMount"] unfolding 2 3 by simp
qed


section \<open>The integrity score\<close>

text \<open>
  Every log the component can hold is a sequence of events of the five kinds, each under
  the text of its kind, with labels of the prohibited set.
\<close>

lemma logOf_append: "logOf (xs @ ys) = logOf xs @ logOf ys"
  by (simp add: logOf_def)

lemma run_log_wellformed:
  assumes "\<exists>evs. (\<forall>(ts, k) \<in> set evs. validKind k) \<and> eventLogs s = logOf evs"
  shows "\<exists>evs. (\<forall>(ts, k) \<in> set evs. validKind k) \<and> eventLogs (run s cs) = logOf evs"
  using assms
proof (induction cs arbitrary: s)
  case Nil
  then show ?case by simp
next
  case (Cons c cs)
  from Cons.prems obtain evs
    where v: "\<forall>(ts, k) \<in> set evs. validKind k" and l: "eventLogs s = logOf evs"
    by blast
  let ?new = "map (Pair (isoString c)) (cycleKinds c s)"
  have "\<forall>(ts, k) \<in> set (evs @ ?new). validKind k"
    using v stamped_valid [of c s] by auto
  moreover have "eventLogs (snd (intervalCallback c s)) = logOf (evs @ ?new)"
    by (simp add: intervalCallback_emitted emitted_logOf l logOf_append)
  ultimately have "\<exists>evs. (\<forall>(ts, k) \<in> set evs. validKind k) \<and>
      eventLogs (snd (intervalCallback c s)) = logOf evs"
    by blast
  from Cons.IH [OF this] show ?case by simp
qed

lemma session_log_wellformed:
  "\<exists>evs. (\<forall>(ts, k) \<in> set evs. validKind k) \<and>
     eventLogs (run (initialState mountTime) cs) = logOf evs"
proof (rule run_log_wellformed)
  have "(\<forall>(ts, k) \<in> set []. validKind k) \<and> eventLogs (initialState mountTime) = logOf []"
    by (simp add: initialState_def logOf_def)
  then show "\<exists>evs. (\<forall>(ts, k) \<in> set evs. validKind k) \<and>
     eventLogs (initialState mountTime) = logOf evs" ..
qed

text \<open>
  C3. For every event log (a sequence of events of the five kinds, prohibited-object events
  carrying a label of the prohibited set, each logged under the text the detection loop
  gives it), the integrity score equals \<open>max(0, 100 - \<Sum> count(kind) * weight(kind))\<close> with
  weights Absence 5, MultipleFaces 5, SuspiciousItem 10, EyesClosed 10, LookingAway 5; it is
  an integer between 0 and 100. A log with one Absence and one SuspiciousItem event scores
  85, and a log with twelve Absence events scores 40.
\<close>

theorem integrityScore_formula:
  assumes "\<forall>(ts, k) \<in> set evs. validKind k"
  shows "integrityScore (logOf evs) =
           max 0 (100 - (int (countKind isAbsence evs) * 5 +
                         int (countKind isMultipleFaces evs) * 5 +
                         int (countKind isSuspiciousItem evs) * 10 +
                         int (countKind isEyesClosed evs) * 10 +
                         int (countKind isLookingAway evs) * 5))
         \<and> integrityScore (logOf evs) = max 0 (100 - (\<Sum>(ts, k) \<leftarrow> evs. weight k))
         \<and> 0 \<le> integrityScore (logOf evs) \<and> integrityScore (logOf evs) \<le> 100
         \<and> (countKind isAbsence evs = 1 \<and> countKind isSuspiciousItem evs = 1 \<and>
              countKind isMultipleFaces evs = 0 \<and> countKind isEyesClosed evs = 0 \<and>
              countKind isLookingAway evs = 0 \<longrightarrow> integrityScore (logOf evs) = 85)
         \<and> (countKind isAbsence evs = 12 \<and> countKind isSuspiciousItem evs = 0 \<and>
              countKind isMultipleFaces evs = 0 \<and> countKind isEyesClosed evs = 0 \<and>
              countKind isLookingAway evs = 0 \<longrightarrow> integrityScore (logOf evs) = 40)"
proof -
  have w: "(\<Sum>(ts, k) \<leftarrow> evs. weight k) =
             int (countKind isAbsence evs) * 5 + int (countKind isMultipleFaces evs) * 5 +
             int (countKind isSuspiciousItem evs) * 10 + int (countKind isEyesClosed evs) * 10 +
             int (countKind isLookingAway evs) * 5"
  proof (induction evs)
    case Nil
    then show ?case by (simp add: countKind_def)
  next
    case (Cons e evs)
    obtain ts k where e: "e = (ts, k)" by (cases e)
    show ?case using Cons by (cases k) (simp_all add: e countKind_def)
  qed
  show ?thesis
    by (simp add: integrityScore_def totalDeductions_def counts_logOf [OF assms] w)
qed

theorem integrityScore_formula_witness:
  "integrityScore (logOf [(sampleIso 6, NoFaceDetected),
                          (sampleIso 9, SuspiciousItemDetected ''book'')]) = 85
   \<and> integrityScore (logOf (replicate 12 (sampleIso 6, NoFaceDetected))) = 40
   \<and> integrityScore (logOf (replicate 30 (sampleIso 6, NoFaceDetected))) = 0"
  using integrityScore_formula
          [of "[(sampleIso 6, NoFaceDetected), (sampleIso 9, SuspiciousItemDetected ''book'')]"]
        integrityScore_formula [of "replicate 12 (sampleIso 6, NoFaceDetected)"]
        integrityScore_formula [of "replicate 30 (sampleIso 6, NoFaceDetected)"]
  by (simp add: countKind_def suspiciousItems_def)

end
